theory Spec2Isabelle
  imports Main
begin

section \<open>Numbers\<close>

text \<open>
  Every number of the program is a JavaScript Number, an IEEE-754 binary64 value. All
  the numbers the rule engine handles are integers; an integer of magnitude below
  \<open>2 ^ 53\<close> is represented exactly, and the result of \<open>*\<close> or \<open>+\<close> is the exact result
  rounded to the nearest representable value, ties to the even significand. The
  positions, scores and indices stay far below \<open>2 ^ 53\<close> and are modelled as \<open>int\<close>;
  the product inside \<open>RNG.hash\<close> does not, so the rounding is written out there.
\<close>

function bitLength :: "int \<Rightarrow> nat" where
  "bitLength n = (if n \<le> 0 then 0 else Suc (bitLength (n div 2)))"
  by pat_completeness auto
termination
  by (relation "measure nat") auto

declare bitLength.simps [simp del]

text \<open>
  \<open>roundDouble v\<close> is the binary64 value nearest to the integer \<open>v\<close> (for magnitudes
  below \<open>2 ^ 1024\<close>): the significand keeps 53 bits, the \<open>e\<close> bits below them are rounded
  away, to nearest and on a tie to the even significand.
\<close>

definition roundDouble :: "int \<Rightarrow> int" where
  "roundDouble v =
     (let n = \<bar>v\<bar>;
          e = bitLength n - 53;
          q = n div 2 ^ e;
          r = n mod 2 ^ e;
          q' = (if 2 * r > 2 ^ e \<or> (2 * r = 2 ^ e \<and> odd q) then q + 1 else q)
      in sgn v * (q' * 2 ^ e))"

text \<open>The remainder operator \<open>%\<close>: exact, with the sign of the dividend.\<close>

definition jsRem :: "int \<Rightarrow> int \<Rightarrow> int" where
  "jsRem x y = sgn x * (\<bar>x\<bar> mod \<bar>y\<bar>)"

section \<open>The pseudo-random stream (util.ts)\<close>

record RNG =
  seed :: int

definition RNG_m :: int where "RNG_m = 2147483648"
definition RNG_a :: int where "RNG_a = 1103515245"
definition RNG_c :: int where "RNG_c = 12345"

text \<open>\<^verbatim>\<open>static hash(seed) { return (RNG.a * seed + RNG.c) % RNG.m; }\<close>\<close>

definition hash :: "int \<Rightarrow> int" where
  "hash sd = jsRem (roundDouble (roundDouble (RNG_a * sd) + RNG_c)) RNG_m"

text \<open>
  \<^verbatim>\<open>static scale(hash) { return Math.floor((7 * hash) / (RNG.m - 1)); }\<close>
  For \<open>0 \<le> hash < 2 ^ 31\<close> the product is exact, and the rounded quotient has the
  floor of the exact one: a quotient that is not an integer is at least
  \<open>1 / (2 ^ 31 - 1)\<close> away from the next integer, the rounding error is below \<open>2 ^ - 50\<close>.
\<close>

definition scale :: "int \<Rightarrow> int" where
  "scale h = (7 * h) div (RNG_m - 1)"

definition next_rng :: "RNG \<Rightarrow> RNG" where
  "next_rng rng = \<lparr>seed = hash (seed rng)\<rparr>"

definition currentValue :: "RNG \<Rightarrow> int" where
  "currentValue rng = scale (seed rng)"

section \<open>The piece catalog (util.ts)\<close>

type_synonym Shape = "int list list"

record Block =
  shape :: Shape
  color :: string

definition shapes :: "Block list" where
  "shapes =
    [\<lparr>shape = [[1, 1, 1, 1], [0, 0, 0, 0], [0, 0, 0, 0], [0, 0, 0, 0]], color = ''cyan''\<rparr>,
     \<lparr>shape = [[1, 1], [1, 1]], color = ''yellow''\<rparr>,
     \<lparr>shape = [[0, 1, 0], [1, 1, 1], [0, 0, 0]], color = ''purple''\<rparr>,
     \<lparr>shape = [[1, 0, 0], [1, 1, 1], [0, 0, 0]], color = ''orange''\<rparr>,
     \<lparr>shape = [[0, 0, 1], [1, 1, 1], [0, 0, 0]], color = ''blue''\<rparr>,
     \<lparr>shape = [[0, 1, 1], [1, 1, 0], [0, 0, 0]], color = ''red''\<rparr>,
     \<lparr>shape = [[1, 1, 0], [0, 1, 1], [0, 0, 0]], color = ''green''\<rparr>]"

text \<open>
  An array read \<open>xs[i]\<close>: \<open>None\<close> is \<open>undefined\<close>, the value of a read outside the
  array.
\<close>

definition arrayGet :: "'a list \<Rightarrow> int \<Rightarrow> 'a option" where
  "arrayGet xs i = (if 0 \<le> i \<and> i < int (length xs) then Some (xs ! nat i) else None)"

text \<open>
  \<^verbatim>\<open>const randomBlock = (rng) => { const block = shapes[rng.currentValue()];
    const newRNG = rng.next(); return [block, newRNG]; }\<close>
\<close>

definition randomBlock :: "RNG \<Rightarrow> Block option \<times> RNG" where
  "randomBlock rng = (arrayGet shapes (currentValue rng), next_rng rng)"

section \<open>Grid operations (state.ts)\<close>

text \<open>A grid cell is \<open>null\<close> (\<open>None\<close>) or a colour string; it counts as occupied when it is truthy.\<close>

type_synonym Cell = "string option"
type_synonym Grid = "Cell list list"

datatype error = TypeError

definition truthy :: "Cell \<Rightarrow> bool" where
  "truthy cell = (case cell of None \<Rightarrow> False | Some s \<Rightarrow> s \<noteq> [])"

definition GRID_WIDTH :: int where "GRID_WIDTH = 10"
definition GRID_HEIGHT :: int where "GRID_HEIGHT = 20"
definition STARTING_BLOCK_X :: int where "STARTING_BLOCK_X = 10 div 2 - 2"
definition STARTING_LEVEL :: int where "STARTING_LEVEL = 1"

text \<open>
  \<open>Array.prototype.some\<close> with the index passed to the callback: left to right, stopping
  at the first truthy answer; an exception thrown by the callback leaves the loop.
\<close>

fun someIdx :: "('a \<Rightarrow> nat \<Rightarrow> error + bool) \<Rightarrow> nat \<Rightarrow> 'a list \<Rightarrow> error + bool" where
  "someIdx f i [] = Inr False"
| "someIdx f i (x # xs) =
     (case f x i of
        Inl e \<Rightarrow> Inl e
      | Inr b \<Rightarrow> if b then Inr True else someIdx f (Suc i) xs)"

text \<open>
  The truthiness of \<open>grid[gridY][gridX]\<close>: reading a row that does not exist gives
  \<open>undefined\<close>, and indexing \<open>undefined\<close> throws a TypeError; reading past the end of a
  row gives \<open>undefined\<close>, which is falsy.
\<close>

definition gridCell :: "Grid \<Rightarrow> int \<Rightarrow> int \<Rightarrow> error + bool" where
  "gridCell grid gridY gridX =
     (case arrayGet grid gridY of
        None \<Rightarrow> Inl TypeError
      | Some row \<Rightarrow> Inr (case arrayGet row gridX of None \<Rightarrow> False | Some cell \<Rightarrow> truthy cell))"

definition isCollision :: "Grid \<Rightarrow> Block \<Rightarrow> int \<Rightarrow> int \<Rightarrow> error + bool" where
  "isCollision grid block x y =
     someIdx (\<lambda>row rowIdx.
       someIdx (\<lambda>cell cellIdx.
         if cell = 0 then Inr False
         else
           let gridX = x + int cellIdx;
               gridY = y + int rowIdx
           in if gridX < 0 \<or> gridX \<ge> GRID_WIDTH \<or> gridY < 0 \<or> gridY \<ge> GRID_HEIGHT
              then Inr True
              else gridCell grid gridY gridX) 0 row) 0 (shape block)"

text \<open>The truthiness of \<open>shape[r]?.[c]\<close>; a read outside the matrix is \<open>undefined\<close>.\<close>

definition shapeCell :: "Shape \<Rightarrow> int \<Rightarrow> int \<Rightarrow> bool" where
  "shapeCell sh r c =
     (case arrayGet sh r of
        None \<Rightarrow> False
      | Some row \<Rightarrow> (case arrayGet row c of None \<Rightarrow> False | Some v \<Rightarrow> v \<noteq> 0))"

definition updateRow :: "Block \<Rightarrow> int \<Rightarrow> int \<Rightarrow> nat \<Rightarrow> Cell \<Rightarrow> nat \<Rightarrow> Cell" where
  "updateRow block x y rowIdx cell cellIdx =
     (if shapeCell (shape block) (int rowIdx - y) (int cellIdx - x)
      then Some (color block) else cell)"

fun mapIdx :: "('a \<Rightarrow> nat \<Rightarrow> 'b) \<Rightarrow> nat \<Rightarrow> 'a list \<Rightarrow> 'b list" where
  "mapIdx f i [] = []"
| "mapIdx f i (x # xs) = f x i # mapIdx f (Suc i) xs"

definition updateGrid :: "Grid \<Rightarrow> Block \<Rightarrow> int \<Rightarrow> int \<Rightarrow> Grid" where
  "updateGrid grid block x y =
     mapIdx (\<lambda>row rowIdx. mapIdx (updateRow block x y rowIdx) 0 row) 0 grid"

section \<open>The game state (types.ts, state.ts)\<close>

text \<open>
  \<open>block\<close> and \<open>nextBlock\<close> hold what \<open>randomBlock\<close> returned, which is \<open>undefined\<close>
  (\<open>None\<close>) when the selector falls outside the catalog.
\<close>

record State =
  block :: "Block option"
  blockX :: int
  blockY :: int
  grid :: Grid
  nextBlock :: "Block option"
  RNG :: RNG
  score :: int
  level :: int
  highScore :: int
  gameEnd :: bool

text \<open>
  \<open>new RNG()\<close> seeds the stream with \<open>RNG.hash(new Date().getMilliseconds())\<close>; the
  milliseconds read at load time are the parameter \<open>ms\<close>.
\<close>

definition initial_RNG :: "int \<Rightarrow> RNG" where
  "initial_RNG ms = \<lparr>seed = hash ms\<rparr>"

definition initialState :: "int \<Rightarrow> State" where
  "initialState ms =
     \<lparr>block = fst (randomBlock (initial_RNG ms)),
      blockX = STARTING_BLOCK_X,
      blockY = 0,
      grid = replicate (nat GRID_HEIGHT) (replicate (nat GRID_WIDTH) None),
      nextBlock = fst (randomBlock (snd (randomBlock (initial_RNG ms)))),
      RNG = snd (randomBlock (snd (randomBlock (initial_RNG ms)))),
      score = 0,
      level = STARTING_LEVEL,
      highScore = 0,
      gameEnd = False\<rparr>"

datatype direction = X | Y

definition moveBlock :: "State \<Rightarrow> direction \<Rightarrow> int \<Rightarrow> int \<times> int" where
  "moveBlock s dir magnitude =
     (blockX s + (if dir = X then magnitude else 0),
      blockY s + (if dir = Y then magnitude else 0))"

text \<open>\<^verbatim>\<open>return grid[0].some((cell) => cell);\<close>\<close>

definition isGameEnd :: "Grid \<Rightarrow> error + bool" where
  "isGameEnd g =
     (case arrayGet g 0 of
        None \<Rightarrow> Inl TypeError
      | Some row \<Rightarrow> Inr (list_ex truthy row))"

fun reduceIdx :: "('b \<Rightarrow> 'a \<Rightarrow> nat \<Rightarrow> 'b) \<Rightarrow> 'b \<Rightarrow> nat \<Rightarrow> 'a list \<Rightarrow> 'b" where
  "reduceIdx f acc i [] = acc"
| "reduceIdx f acc i (x # xs) = reduceIdx f (f acc x i) (Suc i) xs"

definition linesCleared :: "Grid \<Rightarrow> nat list" where
  "linesCleared g =
     reduceIdx (\<lambda>acc row index. if list_all truthy row then acc @ [index] else acc) [] 0 g"

text \<open>
  \<open>newGrid.splice(y, 1)\<close> for an index \<open>y \<ge> 0\<close>: the element at \<open>y\<close> is removed, and
  nothing is when \<open>y\<close> is past the end.
\<close>

definition splice1 :: "nat \<Rightarrow> 'a list \<Rightarrow> 'a list" where
  "splice1 y xs = take y xs @ drop (Suc y) xs"

definition updateGridAfterClearance :: "Grid \<Rightarrow> nat list \<Rightarrow> Grid" where
  "updateGridAfterClearance g clearedLines =
     foldl (\<lambda>newGrid y. replicate (nat GRID_WIDTH) None # splice1 y newGrid) g clearedLines"

definition scoreUpdates :: "State \<Rightarrow> int \<Rightarrow> int \<times> int \<times> int" where
  "scoreUpdates s clearedLineCount =
     (let newScore = score s + clearedLineCount * 100;
          newLevel = newScore div 1000 + 1;
          newHighScore = max newScore (highScore s)
      in (newScore, newLevel, newHighScore))"

section \<open>The actions (state.ts)\<close>

text \<open>
  An action returns \<open>Inr\<close> the next state, or \<open>Inl\<close> the exception it throws. Reading
  \<open>s.block.shape\<close> throws a TypeError when \<open>s.block\<close> is \<open>undefined\<close>.
\<close>

definition Move_apply :: "direction \<Rightarrow> int \<Rightarrow> State \<Rightarrow> error + State" where
  "Move_apply dir magnitude s =
     (case block s of
        None \<Rightarrow> Inl TypeError
      | Some b \<Rightarrow>
          let (newBlockX, newBlockY) = moveBlock s dir magnitude in
          (case isCollision (grid s) b newBlockX newBlockY of
             Inl e \<Rightarrow> Inl e
           | Inr collides \<Rightarrow>
               if collides then
                 if dir = Y \<and> magnitude > 0 then
                   let newGrid = updateGrid (grid s) b (blockX s) (blockY s) in
                   (case isGameEnd newGrid of
                      Inl e \<Rightarrow> Inl e
                    | Inr ended \<Rightarrow>
                        if ended then Inr (s\<lparr>gameEnd := True\<rparr>)
                        else
                          let clearedLines = linesCleared newGrid;
                              updatedGrid = updateGridAfterClearance newGrid clearedLines;
                              (newScore, newLevel, newHighScore) =
                                 scoreUpdates s (int (length clearedLines))
                          in Inr (s\<lparr>block := nextBlock s,
                                    nextBlock := fst (randomBlock (RNG s)),
                                    blockX := STARTING_BLOCK_X,
                                    blockY := 0,
                                    RNG := snd (randomBlock (RNG s)),
                                    grid := updatedGrid,
                                    score := newScore,
                                    level := newLevel,
                                    highScore := newHighScore\<rparr>))
                 else Inr s
               else Inr (s\<lparr>blockX := newBlockX, blockY := newBlockY\<rparr>)))"

text \<open>\<^verbatim>\<open>return { ...initialState, RNG: randomBlock(s.RNG)[1], highScore: s.highScore };\<close>\<close>

definition Restart_apply :: "int \<Rightarrow> State \<Rightarrow> State" where
  "Restart_apply ms s =
     (initialState ms)\<lparr>RNG := snd (randomBlock (RNG s)), highScore := highScore s\<rparr>"

text \<open>\<open>Array.prototype.map\<close> with the index, for a callback that may throw.\<close>

fun mapIdxE :: "('a \<Rightarrow> nat \<Rightarrow> error + 'b) \<Rightarrow> nat \<Rightarrow> 'a list \<Rightarrow> error + 'b list" where
  "mapIdxE f i [] = Inr []"
| "mapIdxE f i (x # xs) =
     (case f x i of
        Inl e \<Rightarrow> Inl e
      | Inr v \<Rightarrow> (case mapIdxE f (Suc i) xs of Inl e \<Rightarrow> Inl e | Inr vs \<Rightarrow> Inr (v # vs)))"

text \<open>
  \<^verbatim>\<open>const N = matrix.length - 1;
  return matrix.map((row, i) => row.map((_, j) => matrix[N - j][i]));\<close>
  \<open>matrix[N - j]\<close> is \<open>undefined\<close> when the row is longer than the matrix is high, and
  indexing it throws. A read past the end of a row puts \<open>undefined\<close> into the new
  matrix; a shape cell is only ever tested for truthiness, so the falsy \<open>0\<close> stands for it.
\<close>

definition rotateMatrix :: "Shape \<Rightarrow> error + Shape" where
  "rotateMatrix matrix =
     (let N = int (length matrix) - 1 in
      mapIdxE (\<lambda>row i.
        mapIdxE (\<lambda>_ j.
          case arrayGet matrix (N - int j) of
            None \<Rightarrow> Inl TypeError
          | Some r \<Rightarrow> Inr (case arrayGet r (int i) of None \<Rightarrow> 0 | Some v \<Rightarrow> v)) 0 row) 0 matrix)"

definition updateState :: "State \<Rightarrow> Block \<Rightarrow> Shape \<Rightarrow> int \<Rightarrow> int \<Rightarrow> State" where
  "updateState s b rotatedBlock deltaX deltaY =
     s\<lparr>block := Some (b\<lparr>shape := rotatedBlock\<rparr>),
       blockX := blockX s + deltaX,
       blockY := blockY s + deltaY\<rparr>"

definition tryRotate :: "State \<Rightarrow> Block \<Rightarrow> Shape \<Rightarrow> int \<Rightarrow> int \<Rightarrow> error + bool" where
  "tryRotate s b rotatedBlock deltaX deltaY =
     (case isCollision (grid s) (b\<lparr>shape := rotatedBlock\<rparr>) (blockX s + deltaX) (blockY s + deltaY) of
        Inl e \<Rightarrow> Inl e
      | Inr collides \<Rightarrow> Inr (\<not> collides))"

text \<open>\<open>Array.prototype.find\<close> for a predicate that may throw.\<close>

fun findE :: "('a \<Rightarrow> error + bool) \<Rightarrow> 'a list \<Rightarrow> error + 'a option" where
  "findE p [] = Inr None"
| "findE p (x # xs) =
     (case p x of
        Inl e \<Rightarrow> Inl e
      | Inr ok \<Rightarrow> if ok then Inr (Some x) else findE p xs)"

definition tryRotationOffsets ::
  "State \<Rightarrow> Block \<Rightarrow> Shape \<Rightarrow> (int \<times> int) list \<Rightarrow> error + (int \<times> int) option" where
  "tryRotationOffsets s b rotatedBlock offsets =
     findE (\<lambda>(dx, dy). tryRotate s b rotatedBlock dx dy) offsets"

definition Rotate_apply :: "State \<Rightarrow> error + State" where
  "Rotate_apply s =
     (case block s of
        None \<Rightarrow> Inl TypeError
      | Some b \<Rightarrow>
          (case rotateMatrix (shape b) of
             Inl e \<Rightarrow> Inl e
           | Inr rotatedBlock \<Rightarrow>
               (case tryRotationOffsets s b rotatedBlock [(0, 0), (1, 0), (- 1, 0), (0, 1), (0, - 1)] of
                  Inl e \<Rightarrow> Inl e
                | Inr None \<Rightarrow> Inr s
                | Inr (Some (dx, dy)) \<Rightarrow> Inr (updateState s b rotatedBlock dx dy))))"

text \<open>
  \<open>findNewY\<close> recurses with no bound of its own, so it is a partial function: \<open>None\<close> is
  a recursion that never returns, \<open>Some (Inl e)\<close> an exception, \<open>Some (Inr y)\<close> the row.
\<close>

partial_function (option) findNewY :: "Grid \<Rightarrow> Block \<Rightarrow> int \<Rightarrow> int \<Rightarrow> (error + int) option" where
  "findNewY g b bX bY =
     (case isCollision g b bX (bY + 1) of
        Inl e \<Rightarrow> Some (Inl e)
      | Inr collides \<Rightarrow> if collides then Some (Inr bY) else findNewY g b bX (bY + 1))"

definition Drop_apply :: "State \<Rightarrow> (error + State) option" where
  "Drop_apply s =
     (case block s of
        None \<Rightarrow> Some (Inl TypeError)
      | Some b \<Rightarrow>
          (case findNewY (grid s) b (blockX s) (blockY s) of
             None \<Rightarrow> None
           | Some (Inl e) \<Rightarrow> Some (Inl e)
           | Some (Inr newY) \<Rightarrow> Some (Move_apply Y (newY - blockY s) s)))"

datatype Action = Move direction int | Rotate | Restart | Drop

text \<open>\<open>tick\<close> of view.ts: \<^verbatim>\<open>const tick = (s, action) => action.apply(s);\<close>\<close>

fun tick :: "int \<Rightarrow> State \<Rightarrow> Action \<Rightarrow> (error + State) option" where
  "tick ms s (Move dir magnitude) = Some (Move_apply dir magnitude s)"
| "tick ms s Rotate = Some (Rotate_apply s)"
| "tick ms s Restart = Some (Inr (Restart_apply ms s))"
| "tick ms s Drop = Drop_apply s"

text \<open>
  main.ts folds \<open>tick\<close> over the stream of actions, from \<open>initialState\<close>
  (\<^verbatim>\<open>scan(tick, initialState)\<close>); an action that throws, or never returns, ends the fold.
\<close>

fun run :: "int \<Rightarrow> State \<Rightarrow> Action list \<Rightarrow> (error + State) option" where
  "run ms s [] = Some (Inr s)"
| "run ms s (a # as) =
     (case tick ms s a of
        None \<Rightarrow> None
      | Some (Inl e) \<Rightarrow> Some (Inl e)
      | Some (Inr s') \<Rightarrow> run ms s' as)"

inductive reachable :: "int \<Rightarrow> State \<Rightarrow> bool" for ms :: int where
  init: "reachable ms (initialState ms)"
| step: "reachable ms s \<Longrightarrow> tick ms s a = Some (Inr s') \<Longrightarrow> reachable ms s'"

declare findNewY.simps [code]

section \<open>Predicates of the specification\<close>

text \<open>A shape with at least one filled cell.\<close>

definition filled :: "Shape \<Rightarrow> bool" where
  "filled sh = list_ex (list_ex (\<lambda>cell. cell \<noteq> 0)) sh"

text \<open>
  The score invariant of the data model, with the bound \<open>0 \<le> score\<close> that makes it
  inductive.
\<close>

definition scoreInv :: "State \<Rightarrow> bool" where
  "scoreInv s \<longleftrightarrow> 0 \<le> score s \<and> level s = score s div 1000 + 1 \<and> score s \<le> highScore s"

text \<open>A downward Move, \<open>Move('y', m)\<close> with \<open>m > 0\<close>: the one action that can land a piece.\<close>

fun isDownwardMove :: "Action \<Rightarrow> bool" where
  "isDownwardMove (Move d m) = (d = Y \<and> m > 0)"
| "isDownwardMove a = False"

section \<open>Scenario states\<close>

definition emptyRow :: "Cell list" where
  "emptyRow = replicate (nat GRID_WIDTH) None"

definition pieceO :: Block where
  "pieceO = \<lparr>shape = [[1, 1], [1, 1]], color = ''yellow''\<rparr>"

text \<open>A piece with no filled cell.\<close>

definition pieceZero :: Block where
  "pieceZero = \<lparr>shape = [[0, 0], [0, 0]], color = ''none''\<rparr>"

text \<open>Scenario A of the specification: an empty grid, the square piece at \<open>(3, 0)\<close>.\<close>

definition scenarioA :: State where
  "scenarioA =
     \<lparr>block = Some pieceO,
      blockX = 3, blockY = 0,
      grid = replicate 20 emptyRow,
      nextBlock = Some \<lparr>shape = [[0, 1, 0], [1, 1, 1], [0, 0, 0]], color = ''purple''\<rparr>,
      RNG = \<lparr>seed = 12345\<rparr>,
      score = 0, level = 1, highScore = 0, gameEnd = False\<rparr>"

text \<open>
  Scenario C: the square piece at \<open>(3, 0)\<close> rests on a stack that fills column 3 from
  row 2 down, so that it lands where it spawned.
\<close>

definition scenarioC :: State where
  "scenarioC =
     scenarioA\<lparr>grid := replicate 2 emptyRow @ replicate 18 (emptyRow[3 := Some ''red''])\<rparr>"

text \<open>Scenario B: the square piece in the bottom two rows of the empty grid.\<close>

definition scenarioB :: State where
  "scenarioB = scenarioA\<lparr>blockY := 18\<rparr>"

text \<open>Scenario D of the specification: a state with score 500 and high score 300.\<close>

definition scenarioD :: State where
  "scenarioD = (initialState 0)\<lparr>score := 500, highScore := 300\<rparr>"

text \<open>A grid whose rows 17 and 19 are full.\<close>

definition clearGrid :: Grid where
  "clearGrid =
     replicate 17 emptyRow
     @ [replicate 10 (Some ''cyan''), emptyRow[0 := Some ''red''], replicate 10 (Some ''blue'')]"

text \<open>
  A game loaded at millisecond 0, played to its end: each piece is dropped (some after a
  rotation) and landed by the next tick, until the piece that has just spawned cannot
  move down.
\<close>

definition gameOverActions :: "Action list" where
  "gameOverActions =
     [Drop, Move Y 1,
      Rotate, Drop, Move Y 1,
      Rotate, Drop, Move Y 1,
      Rotate, Drop, Move Y 1,
      Rotate, Drop, Move Y 1,
      Drop, Move Y 1,
      Rotate, Drop, Move Y 1,
      Move Y 1]"

definition gameOverState :: State where
  "gameOverState =
     (case run 0 (initialState 0) gameOverActions of
        Some (Inr s) \<Rightarrow> s
      | _ \<Rightarrow> initialState 0)"

text \<open>After the end of the game: the piece is moved one column to the left, dropped and landed.\<close>

definition afterGameOverActions :: "Action list" where
  "afterGameOverActions = [Move X (- 1), Drop, Move Y 1]"

text \<open>Scenario C after its end, and actions that move the piece without landing it.\<close>

definition scenarioEnded :: State where
  "scenarioEnded = scenarioC\<lparr>gameEnd := True\<rparr>"

definition sidewaysActions :: "Action list" where
  "sidewaysActions = [Move X 1, Rotate, Drop, Move Y (- 1), Move X (- 1)]"

section \<open>Properties of the stream\<close>

lemma scale_range:
  assumes "0 \<le> h" and "h < 2147483647"
  shows "0 \<le> scale h \<and> scale h \<le> 6"
proof -
  have "7 * h \<le> 15032385522"
    using assms by simp
  then have "(7 * h) div 2147483647 \<le> 15032385522 div (2147483647::int)"
    by (rule zdiv_mono1) simp
  moreover have "0 \<le> (7 * h) div 2147483647"
    using assms by (simp add: pos_imp_zdiv_nonneg_iff)
  ultimately show ?thesis
    by (simp add: scale_def RNG_m_def)
qed

lemma bitLength_le: "n < 2 ^ k \<Longrightarrow> bitLength n \<le> k"
proof (induction k arbitrary: n)
  case 0
  then have "n \<le> 0" by simp
  then show ?case by (simp add: bitLength.simps)
next
  case (Suc k)
  show ?case
  proof (cases "n \<le> 0")
    case True
    then show ?thesis by (simp add: bitLength.simps)
  next
    case False
    from Suc.prems have "n div 2 < 2 ^ k" by simp
    then have "bitLength (n div 2) \<le> k" by (rule Suc.IH)
    with False show ?thesis by (subst bitLength.simps) simp
  qed
qed

lemma roundDouble_exact: "\<bar>v\<bar> < 2 ^ 53 \<Longrightarrow> roundDouble v = v"
proof -
  assume "\<bar>v\<bar> < 2 ^ 53"
  then have "bitLength \<bar>v\<bar> - 53 = 0" using bitLength_le[of "\<bar>v\<bar>" 53] by simp
  then show ?thesis by (simp add: roundDouble_def Let_def mult_sgn_abs)
qed

lemma hash_exact:
  assumes "0 \<le> sd" and "RNG_a * sd + RNG_c < 2 ^ 53"
  shows "hash sd = (RNG_a * sd + RNG_c) mod RNG_m"
proof -
  have nn: "0 \<le> RNG_a * sd" using assms(1) by (simp add: RNG_a_def)
  with assms(2) have "\<bar>RNG_a * sd\<bar> < 2 ^ 53" by (simp add: RNG_c_def)
  then have 1: "roundDouble (RNG_a * sd) = RNG_a * sd" by (rule roundDouble_exact)
  from nn assms(2) have "\<bar>RNG_a * sd + RNG_c\<bar> < 2 ^ 53" by (simp add: RNG_c_def)
  then have 2: "roundDouble (RNG_a * sd + RNG_c) = RNG_a * sd + RNG_c" by (rule roundDouble_exact)
  from nn have "0 < RNG_a * sd + RNG_c" by (simp add: RNG_c_def)
  then show ?thesis by (simp add: hash_def 1 2 jsRem_def RNG_m_def)
qed

text \<open>
  C3. Claimed: for every seed in \<open>[0, 2 ^ 31)\<close> the selector \<open>currentValue\<close> lies in
  \<open>[0, 6]\<close>, so that \<open>randomBlock\<close> always indexes one of the 7 catalog entries. The
  divisor of \<open>scale\<close> is \<open>m - 1\<close>: at the seed \<open>2 ^ 31 - 1\<close>, which is in the range, the
  selector is 7 and the catalog read gives \<open>undefined\<close>.
\<close>

theorem currentValue_top_seed:
  "(0::int) \<le> 2147483647 \<and> 2147483647 < RNG_m
   \<and> currentValue \<lparr>seed = 2147483647\<rparr> = 7
   \<and> fst (randomBlock \<lparr>seed = 2147483647\<rparr>) = None"
  by (simp add: currentValue_def scale_def RNG_m_def randomBlock_def arrayGet_def shapes_def)

text \<open>
  C5. Claimed: for every seed in \<open>[0, 2 ^ 31)\<close>, \<open>hash seed\<close> is exactly
  \<open>(1103515245 * seed + 12345) mod 2 ^ 31\<close>. The product exceeds \<open>2 ^ 53\<close> for seeds
  above 8162216 and is rounded before the remainder is taken. At the seed \<open>1406932606\<close>,
  which is \<open>hash (hash 0)\<close>, the second stream of a game loaded at millisecond 0, and at
  the seed \<open>2 ^ 31 - 1\<close>, the result differs from the exact one.
\<close>

theorem hash_rounds_product:
  "hash (hash 0) = 1406932606
   \<and> hash 1406932606 = 654583808
   \<and> (RNG_a * 1406932606 + RNG_c) mod RNG_m = 654583775
   \<and> hash 2147483647 = 1043980800
   \<and> (RNG_a * 2147483647 + RNG_c) mod RNG_m = 1043980748"
  by code_simp

section \<open>Restart\<close>

text \<open>
  C4, as claimed: Restart on a state with score 500 and high score 300 gives high score
  500. It gives 300: the high score is copied, not recomputed from the score.
\<close>

theorem Restart_scenarioD_highScore:
  "score scenarioD = 500 \<and> highScore scenarioD = 300
   \<and> highScore (Restart_apply 0 scenarioD) \<noteq> 500"
  by (simp add: scenarioD_def Restart_apply_def)

text \<open>
  C4, amended: Restart returns the initial state, except that the high score is the one
  of the current state, unchanged, and the stream is the current one advanced once. So
  the score is 0, the level 1, the game not ended, the grid empty, the pieces those of
  the first game.
\<close>

theorem Restart_apply_initial:
  "Restart_apply ms s = (initialState ms)\<lparr>RNG := next_rng (RNG s), highScore := highScore s\<rparr>
   \<and> score (Restart_apply ms s) = 0
   \<and> highScore (Restart_apply ms s) = highScore s
   \<and> \<not> gameEnd (Restart_apply ms s)
   \<and> RNG (Restart_apply ms s) = next_rng (RNG s)"
  by (simp add: Restart_apply_def randomBlock_def initialState_def)

section \<open>What each action leaves unchanged\<close>

lemma Move_apply_scoreInv:
  "Move_apply d m s = Inr s' \<Longrightarrow> scoreInv s \<Longrightarrow> scoreInv s'"
  by (auto simp: Move_apply_def scoreInv_def scoreUpdates_def Let_def
           split: option.splits sum.splits if_splits prod.splits)

lemma findE_Some_mem: "findE p xs = Inr (Some x) \<Longrightarrow> x \<in> set xs"
  by (induction xs) (auto split: sum.splits if_splits)

lemma Rotate_apply_frame:
  assumes "Rotate_apply s = Inr s'"
  shows "grid s' = grid s \<and> score s' = score s \<and> level s' = level s
         \<and> highScore s' = highScore s \<and> gameEnd s' = gameEnd s \<and> RNG s' = RNG s
         \<and> nextBlock s' = nextBlock s"
  using assms
  by (auto simp: Rotate_apply_def updateState_def split: option.splits sum.splits)

lemma Move_apply_frame:
  assumes "Move_apply d m s = Inr s'" and "d = X \<or> m \<le> 0"
  shows "grid s' = grid s \<and> score s' = score s \<and> level s' = level s
         \<and> highScore s' = highScore s \<and> gameEnd s' = gameEnd s \<and> RNG s' = RNG s
         \<and> nextBlock s' = nextBlock s \<and> block s' = block s"
  using assms
  by (auto simp: Move_apply_def Let_def split: option.splits sum.splits if_splits prod.splits)

lemma findNewY_result_aux:
  assumes "findNewY g b bX bY = Some r"
  shows "\<forall>y. r = Inr y \<longrightarrow>
        bY \<le> y \<and> isCollision g b bX (y + 1) = Inr True
        \<and> (\<forall>y'. bY \<le> y' \<and> y' < y \<longrightarrow> isCollision g b bX (y' + 1) = Inr False)"
proof (rule findNewY.raw_induct[where P = "\<lambda>g b bX bY r. \<forall>y. r = Inr y \<longrightarrow>
        bY \<le> y \<and> isCollision g b bX (y + 1) = Inr True
        \<and> (\<forall>y'. bY \<le> y' \<and> y' < y \<longrightarrow> isCollision g b bX (y' + 1) = Inr False)", OF _ assms])
  fix f g b bX bY r
  assume IH0: "\<And>g b bX bY r. f g b bX bY = Some r \<Longrightarrow> \<forall>y. r = Inr y \<longrightarrow>
        bY \<le> y \<and> isCollision g b bX (y + 1) = Inr True
        \<and> (\<forall>y'. bY \<le> y' \<and> y' < y \<longrightarrow> isCollision g b bX (y' + 1) = Inr False)"
    and body: "(case isCollision g b bX (bY + 1) of Inl e \<Rightarrow> Some (Inl e)
      | Inr collides \<Rightarrow> if collides then Some (Inr bY) else f g b bX (bY + 1)) = Some r"
  show "\<forall>y. r = Inr y \<longrightarrow>
        bY \<le> y \<and> isCollision g b bX (y + 1) = Inr True
        \<and> (\<forall>y'. bY \<le> y' \<and> y' < y \<longrightarrow> isCollision g b bX (y' + 1) = Inr False)"
  proof (cases "isCollision g b bX (bY + 1)")
    case (Inl e)
    with body have "r = Inl e" by simp
    then show ?thesis by simp
  next
    case (Inr c)
    show ?thesis
    proof (cases c)
      case True
      with Inr body have "r = Inr bY" by simp
      with Inr True show ?thesis by auto
    next
      case False
      with Inr body have "f g b bX (bY + 1) = Some r" by simp
      from IH0[OF this] have IH: "\<forall>y. r = Inr y \<longrightarrow>
        bY + 1 \<le> y \<and> isCollision g b bX (y + 1) = Inr True
        \<and> (\<forall>y'. bY + 1 \<le> y' \<and> y' < y \<longrightarrow> isCollision g b bX (y' + 1) = Inr False)" .
      show ?thesis
      proof (intro allI impI)
        fix y assume r: "r = Inr y"
        with IH have a: "bY + 1 \<le> y" and b: "isCollision g b bX (y + 1) = Inr True"
          and c: "\<And>y'. bY + 1 \<le> y' \<Longrightarrow> y' < y \<Longrightarrow> isCollision g b bX (y' + 1) = Inr False"
          by blast+
        have d: "isCollision g b bX (y' + 1) = Inr False" if "bY \<le> y'" "y' < y" for y'
        proof (cases "y' = bY")
          case True then show ?thesis using Inr False by simp
        next
          case False
          with that have "bY + 1 \<le> y'" by simp
          then show ?thesis using that(2) by (rule c)
        qed
        from a have "bY \<le> y" by simp
        with b d show "bY \<le> y \<and> isCollision g b bX (y + 1) = Inr True
          \<and> (\<forall>y'. bY \<le> y' \<and> y' < y \<longrightarrow> isCollision g b bX (y' + 1) = Inr False)"
          by blast
      qed
    qed
  qed
qed

lemma findNewY_result:
  "findNewY g b bX bY = Some (Inr y) \<Longrightarrow>
     bY \<le> y \<and> isCollision g b bX (y + 1) = Inr True
     \<and> (\<forall>y'. bY \<le> y' \<and> y' < y \<longrightarrow> isCollision g b bX (y' + 1) = Inr False)"
  using findNewY_result_aux by blast

lemma findNewY_first:
  assumes "bY \<le> y" and "isCollision g b bX (y + 1) = Inr True"
    and "\<And>y'. bY \<le> y' \<Longrightarrow> y' < y \<Longrightarrow> isCollision g b bX (y' + 1) = Inr False"
  shows "findNewY g b bX bY = Some (Inr y)"
  using assms
proof (induction "nat (y - bY)" arbitrary: bY)
  case 0
  then have "bY = y" by simp
  with 0 show ?case by (subst findNewY.simps) simp
next
  case (Suc n)
  then have lt: "bY < y" by linarith
  then have "isCollision g b bX (bY + 1) = Inr False" using Suc.prems(3)[of bY] by simp
  moreover have "findNewY g b bX (bY + 1) = Some (Inr y)"
  proof (rule Suc.hyps(1))
    show "n = nat (y - (bY + 1))" using Suc.hyps(2) by linarith
    show "bY + 1 \<le> y" using lt by simp
    show "isCollision g b bX (y + 1) = Inr True" by (rule Suc.prems(2))
    show "\<And>y'. bY + 1 \<le> y' \<Longrightarrow> y' < y \<Longrightarrow> isCollision g b bX (y' + 1) = Inr False"
      using Suc.prems(3) by simp
  qed
  ultimately show ?case by (subst findNewY.simps) simp
qed

lemma Drop_apply_lands:
  assumes "Drop_apply s = Some (Inr s')"
  shows "\<exists>y. blockY s \<le> y \<and> s' = s\<lparr>blockY := y\<rparr>"
proof -
  from assms obtain b where b: "block s = Some b"
    by (auto simp: Drop_apply_def split: option.splits)
  from assms b obtain y where y: "findNewY (grid s) b (blockX s) (blockY s) = Some (Inr y)"
    and m: "Move_apply Y (y - blockY s) s = Inr s'"
    by (auto simp: Drop_apply_def split: option.splits sum.splits)
  from findNewY_result[OF y] have le: "blockY s \<le> y"
    and free: "\<And>y'. blockY s \<le> y' \<Longrightarrow> y' < y \<Longrightarrow> isCollision (grid s) b (blockX s) (y' + 1) = Inr False"
    by auto
  show ?thesis
  proof (cases "y = blockY s")
    case True
    with m b have "s' = s \<or> s' = s\<lparr>blockX := blockX s, blockY := blockY s\<rparr>"
      by (auto simp: Move_apply_def moveBlock_def split: sum.splits if_splits)
    then have "s' = s\<lparr>blockY := blockY s\<rparr>" by auto
    with True show ?thesis by auto
  next
    case False
    with le have "blockY s \<le> y - 1" "y - 1 < y" by auto
    from free[OF this] have "isCollision (grid s) b (blockX s) y = Inr False" by simp
    with m b have "s' = s\<lparr>blockY := y\<rparr>"
      by (auto simp: Move_apply_def moveBlock_def)
    with le show ?thesis by auto
  qed
qed


lemma Restart_apply_scoreInv: "scoreInv s \<Longrightarrow> scoreInv (Restart_apply ms s)"
  by (simp add: scoreInv_def Restart_apply_def initialState_def STARTING_LEVEL_def)

lemma tick_scoreInv:
  assumes "tick ms s a = Some (Inr s')" and "scoreInv s"
  shows "scoreInv s'"
proof (cases a)
  case (Move d m)
  with assms show ?thesis by (auto dest: Move_apply_scoreInv)
next
  case Rotate
  with assms have "Rotate_apply s = Inr s'" by simp
  from Rotate_apply_frame[OF this] assms(2) show ?thesis by (simp add: scoreInv_def)
next
  case Restart
  with assms show ?thesis by (auto intro: Restart_apply_scoreInv)
next
  case Drop
  with assms have "Drop_apply s = Some (Inr s')" by simp
  from Drop_apply_lands[OF this] assms(2) show ?thesis by (auto simp: scoreInv_def)
qed

lemma initialState_scoreInv: "scoreInv (initialState ms)"
  by (simp add: scoreInv_def initialState_def STARTING_LEVEL_def)

lemma reachable_scoreInv: "reachable ms s \<Longrightarrow> scoreInv s"
  by (induction rule: reachable.induct) (auto intro: initialState_scoreInv tick_scoreInv)

section \<open>The score invariant\<close>

text \<open>
  C7. In every state reachable from the initial state by Move, Rotate, Restart and Drop
  actions, \<open>level = floor (score / 1000) + 1\<close> and \<open>highScore \<ge> score\<close>.
\<close>

theorem reachable_level_highScore:
  "reachable ms s \<Longrightarrow> level s = score s div 1000 + 1 \<and> highScore s \<ge> score s"
  using reachable_scoreInv[of ms s] by (simp add: scoreInv_def)

theorem reachable_level_highScore_witness:
  "reachable 0 (initialState 0)
   \<and> level (initialState 0) = score (initialState 0) div 1000 + 1
   \<and> highScore (initialState 0) \<ge> score (initialState 0)"
  using reachable_level_highScore[OF reachable.init[of 0]] reachable.init[of 0] by simp

section \<open>Collision and the landing row\<close>

lemma someIdx_Inr_False:
  "someIdx f i xs = Inr False \<Longrightarrow> j < length xs \<Longrightarrow> f (xs ! j) (i + j) = Inr False"
proof (induction xs arbitrary: i j)
  case Nil
  then show ?case by simp
next
  case (Cons x xs)
  from Cons.prems(1) have hd: "f x i = Inr False" and tl: "someIdx f (Suc i) xs = Inr False"
    by (auto split: sum.splits if_splits)
  show ?case
  proof (cases j)
    case 0
    with hd show ?thesis by simp
  next
    case (Suc k)
    with Cons.prems(2) have "k < length xs" by simp
    from Cons.IH[OF tl this] Suc show ?thesis by simp
  qed
qed

lemma someIdx_all_False:
  "(\<And>j. j < length xs \<Longrightarrow> f (xs ! j) (i + j) = Inr False) \<Longrightarrow> someIdx f i xs = Inr False"
proof (induction xs arbitrary: i)
  case Nil
  then show ?case by simp
next
  case (Cons x xs)
  from Cons.prems[of 0] have hd: "f x i = Inr False" by simp
  have "someIdx f (Suc i) xs = Inr False"
  proof (rule Cons.IH)
    fix j assume "j < length xs"
    then show "f (xs ! j) (Suc i + j) = Inr False" using Cons.prems[of "Suc j"] by simp
  qed
  with hd show ?case by simp
qed

lemma someIdx_total:
  "(\<And>j. j < length xs \<Longrightarrow> \<exists>c. f (xs ! j) (i + j) = Inr c) \<Longrightarrow> \<exists>c. someIdx f i xs = Inr c"
proof (induction xs arbitrary: i)
  case Nil
  show ?case by auto
next
  case (Cons x xs)
  from Cons.prems[of 0] obtain c where hd: "f x i = Inr c" by auto
  have "\<exists>c. someIdx f (Suc i) xs = Inr c"
  proof (rule Cons.IH)
    fix j assume "j < length xs"
    then show "\<exists>c. f (xs ! j) (Suc i + j) = Inr c" using Cons.prems[of "Suc j"] by simp
  qed
  with hd show ?case by auto
qed


lemma isCollision_total:
  assumes "nat GRID_HEIGHT \<le> length g"
  shows "\<exists>c. isCollision g b x y = Inr c"
  unfolding isCollision_def
proof (intro someIdx_total)
  fix r c
  show "\<exists>res. (if shape b ! r ! c = 0 then Inr False
          else let gridX = x + int (0 + c); gridY = y + int (0 + r)
               in if gridX < 0 \<or> GRID_WIDTH \<le> gridX \<or> gridY < 0 \<or> GRID_HEIGHT \<le> gridY
                  then Inr True else gridCell g gridY gridX) = Inr res"
    using assms by (auto simp: Let_def gridCell_def arrayGet_def)
qed

lemma isCollision_not_filled:
  assumes "\<not> filled (shape b)"
  shows "isCollision g b x y = Inr False"
  unfolding isCollision_def
proof (intro someIdx_all_False)
  fix r c
  assume "r < length (shape b)" "c < length (shape b ! r)"
  with assms have "shape b ! r ! c = 0"
    by (simp add: filled_def list_ex_iff) (meson nth_mem)
  then show "(if shape b ! r ! c = 0 then Inr False
          else let gridX = x + int (0 + c); gridY = y + int (0 + r)
               in if gridX < 0 \<or> GRID_WIDTH \<le> gridX \<or> gridY < 0 \<or> GRID_HEIGHT \<le> gridY
                  then Inr True else gridCell g gridY gridX) = Inr False"
    by simp
qed

lemma isCollision_below_floor:
  assumes "r < length (shape b)" and "c < length (shape b ! r)" and "shape b ! r ! c \<noteq> 0"
    and "GRID_HEIGHT \<le> y + int r"
  shows "isCollision g b x y \<noteq> Inr False"
proof
  assume "isCollision g b x y = Inr False"
  then have "someIdx (\<lambda>cell cellIdx.
         if cell = 0 then Inr False
         else
           let gridX = x + int cellIdx;
               gridY = y + int (0 + r)
           in if gridX < 0 \<or> gridX \<ge> GRID_WIDTH \<or> gridY < 0 \<or> gridY \<ge> GRID_HEIGHT
              then Inr True
              else gridCell g gridY gridX) 0 (shape b ! r) = Inr False"
    unfolding isCollision_def using assms(1) by (rule someIdx_Inr_False)
  from someIdx_Inr_False[OF this assms(2)] assms(3,4) show False
    by (simp add: Let_def)
qed


lemma filled_nth:
  "filled sh \<Longrightarrow> \<exists>r c. r < length sh \<and> c < length (sh ! r) \<and> sh ! r ! c \<noteq> 0"
  by (simp add: filled_def list_ex_iff) (metis in_set_conv_nth)

lemma findNewY_not_filled:
  assumes "findNewY g b bX bY = Some r"
  shows "filled (shape b)"
proof (rule findNewY.raw_induct[where P = "\<lambda>g b bX bY r. filled (shape b)", OF _ assms])
  fix f g b bX bY r
  assume IH: "\<And>g b bX bY r. f g b bX bY = Some r \<Longrightarrow> filled (shape b)"
    and body: "(case isCollision g b bX (bY + 1) of Inl e \<Rightarrow> Some (Inl e)
      | Inr collides \<Rightarrow> if collides then Some (Inr bY) else f g b bX (bY + 1)) = Some r"
  show "filled (shape b)"
  proof (rule ccontr)
    assume "\<not> filled (shape b)"
    then have "isCollision g b bX (bY + 1) = Inr False" by (rule isCollision_not_filled)
    with body have "f g b bX (bY + 1) = Some r" by simp
    then have "filled (shape b)" by (rule IH)
    with \<open>\<not> filled (shape b)\<close> show False by simp
  qed
qed

lemma findNewY_filled:
  assumes "filled (shape b)"
  shows "\<exists>r. findNewY g b bX bY = Some r"
proof -
  from filled_nth[OF assms] obtain r c where rc:
    "r < length (shape b)" "c < length (shape b ! r)" "shape b ! r ! c \<noteq> 0" by blast
  show ?thesis
  proof (induction "nat (GRID_HEIGHT - int r - (bY + 1))" arbitrary: bY)
    case 0
    then have "GRID_HEIGHT \<le> (bY + 1) + int r" by simp
    from isCollision_below_floor[OF rc this]
    have "isCollision g b bX (bY + 1) \<noteq> Inr False" .
    then show ?case
      by (subst findNewY.simps) (auto split: sum.splits)
  next
    case (Suc n)
    show ?case
    proof (cases "isCollision g b bX (bY + 1) = Inr False")
      case True
      have "\<exists>r. findNewY g b bX (bY + 1) = Some r"
        by (rule Suc.hyps(1)) (use Suc.hyps(2) in linarith)
      with True show ?thesis by (subst findNewY.simps) simp
    next
      case False
      then show ?thesis by (subst findNewY.simps) (auto split: sum.splits)
    qed
  qed
qed

lemma findNewY_Inl:
  assumes "findNewY g b bX bY = Some r"
  shows "\<forall>e. r = Inl e \<longrightarrow> (\<exists>y. isCollision g b bX y = Inl e)"
proof (rule findNewY.raw_induct[where P = "\<lambda>g b bX bY r. \<forall>e. r = Inl e \<longrightarrow> (\<exists>y. isCollision g b bX y = Inl e)", OF _ assms])
  fix f g b bX bY r
  assume IH: "\<And>g b bX bY r. f g b bX bY = Some r \<Longrightarrow> \<forall>e. r = Inl e \<longrightarrow> (\<exists>y. isCollision g b bX y = Inl e)"
    and body: "(case isCollision g b bX (bY + 1) of Inl e \<Rightarrow> Some (Inl e)
      | Inr collides \<Rightarrow> if collides then Some (Inr bY) else f g b bX (bY + 1)) = Some r"
  show "\<forall>e. r = Inl e \<longrightarrow> (\<exists>y. isCollision g b bX y = Inl e)"
  proof (cases "isCollision g b bX (bY + 1)")
    case (Inl e)
    with body have "r = Inl e" by simp
    with Inl show ?thesis by auto
  next
    case (Inr c)
    show ?thesis
    proof (cases c)
      case True
      with Inr body have "r = Inr bY" by simp
      then show ?thesis by simp
    next
      case False
      with Inr body have "f g b bX (bY + 1) = Some r" by simp
      then show ?thesis by (rule IH)
    qed
  qed
qed

lemma findNewY_returns:
  assumes "filled (shape b)" and "nat GRID_HEIGHT \<le> length g"
  shows "\<exists>y. findNewY g b bX bY = Some (Inr y)"
proof -
  from findNewY_filled[OF assms(1)] obtain r where r: "findNewY g b bX bY = Some r" by blast
  show ?thesis
  proof (cases r)
    case (Inl e)
    with findNewY_Inl[OF r] obtain y where "isCollision g b bX y = Inl e" by blast
    with isCollision_total[OF assms(2), of b bX y] show ?thesis by simp
  next
    case (Inr y)
    with r show ?thesis by blast
  qed
qed

section \<open>Line clearance\<close>

lemma nths_cong_below:
  assumes "\<And>i. i < length xs \<Longrightarrow> (i \<in> I) = (i \<in> J)"
  shows "nths xs I = nths xs J"
proof -
  have "filter (\<lambda>p. snd p \<in> I) (zip xs [0..<length xs]) = filter (\<lambda>p. snd p \<in> J) (zip xs [0..<length xs])"
  proof (rule filter_cong[OF refl])
    fix p assume "p \<in> set (zip xs [0..<length xs])"
    then have "snd p \<in> set [0..<length xs]" by (metis in_set_zipE prod.collapse)
    then have "snd p < length xs" by simp
    then show "(snd p \<in> I) = (snd p \<in> J)" by (rule assms)
  qed
  then show ?thesis by (simp add: nths_def)
qed

lemma splice1_at_length: "length p = y \<Longrightarrow> splice1 y (p @ x # rest) = p @ rest"
  by (simp add: splice1_def)

lemma card_below_not_in:
  assumes "\<forall>i\<in>set rs. i < y" and "distinct rs"
  shows "card {i. i < y \<and> i \<notin> set rs} = y - length rs"
proof -
  have "{i. i < y \<and> i \<notin> set rs} = {..<y} - set rs" by auto
  moreover have "set rs \<subseteq> {..<y}" using assms(1) by auto
  ultimately have "card {i. i < y \<and> i \<notin> set rs} = card {..<y} - card (set rs)"
    by (simp add: card_Diff_subset)
  with assms(2) show ?thesis by (simp add: distinct_card)
qed

lemma length_le_bound:
  assumes "\<forall>i\<in>set rs. i < y" and "distinct rs"
  shows "length rs \<le> y"
proof -
  have "set rs \<subseteq> {..<y}" using assms(1) by auto
  then have "card (set rs) \<le> card {..<y}" by (intro card_mono) auto
  with assms(2) show ?thesis by (simp add: distinct_card)
qed

lemma clearance_step:
  assumes y: "y < length g" and below: "\<forall>i\<in>set rs. i < y" and d: "distinct rs"
  shows "splice1 y (replicate (length rs) E @ nths g {i. i \<notin> set rs})
         = replicate (length rs) E @ nths g {i. i \<notin> set (rs @ [y])}"
proof -
  let ?A = "{i. i \<notin> set rs}"
  let ?A' = "{i. i \<notin> set (rs @ [y])}"
  let ?pre = "take y g" and ?rest = "drop (Suc y) g"
  have g: "g = ?pre @ g ! y # ?rest" using y by (rule id_take_nth_drop)
  have len_pre: "length ?pre = y" using y by simp
  have tailA: "nths (g ! y # ?rest) {j. j + y \<in> ?A} = g ! y # ?rest"
    by (rule nths_all) (use below in auto)
  have splitA: "nths g ?A = nths ?pre ?A @ g ! y # ?rest"
    by (subst g, subst nths_append) (simp only: len_pre tailA)
  have "{j. Suc j + y \<in> ?A'} = UNIV" using below by auto
  then have tailA': "nths (g ! y # ?rest) {j. j + y \<in> ?A'} = ?rest"
    by (simp add: nths_Cons nths_all)
  have preA': "nths ?pre ?A' = nths ?pre ?A"
    by (rule nths_cong_below) (use len_pre in auto)
  have splitA': "nths g ?A' = nths ?pre ?A @ ?rest"
    by (subst g, subst nths_append) (simp only: len_pre tailA' preA')
  have "{i. i < length ?pre \<and> i \<in> ?A} = {i. i < y \<and> i \<notin> set rs}"
    using len_pre by auto
  then have "length (nths ?pre ?A) = card {i. i < y \<and> i \<notin> set rs}"
    by (simp only: length_nths)
  also have "\<dots> = y - length rs" using below d by (rule card_below_not_in)
  finally have "length (replicate (length rs) E @ nths ?pre ?A) = y"
    using length_le_bound[OF below d] by simp
  then have "splice1 y ((replicate (length rs) E @ nths ?pre ?A) @ g ! y # ?rest)
             = (replicate (length rs) E @ nths ?pre ?A) @ ?rest"
    by (rule splice1_at_length)
  then show ?thesis by (simp only: splitA splitA' append_assoc)
qed

lemma strict_sorted_imp_distinct: "sorted_wrt (<) (xs :: nat list) \<Longrightarrow> distinct xs"
  by (induction xs) auto

lemma clearance_nths:
  assumes "sorted_wrt (<) rows" and "\<forall>i\<in>set rows. i < length g"
  shows "updateGridAfterClearance g rows
         = replicate (length rows) (replicate (nat GRID_WIDTH) None) @ nths g {i. i \<notin> set rows}"
  using assms
proof (induction rows rule: rev_induct)
  case Nil
  show ?case by (simp add: updateGridAfterClearance_def nths_all)
next
  case (snoc y rs)
  let ?E = "replicate (nat GRID_WIDTH) (None :: Cell)"
  from snoc.prems(1) have srt: "sorted_wrt (<) rs" and below: "\<forall>i\<in>set rs. i < y"
    by (auto simp: sorted_wrt_append)
  from srt have d: "distinct rs" by (rule strict_sorted_imp_distinct)
  from snoc.prems(2) have y: "y < length g" and inr: "\<forall>i\<in>set rs. i < length g" by auto
  have IH: "updateGridAfterClearance g rs = replicate (length rs) ?E @ nths g {i. i \<notin> set rs}"
    using srt inr by (rule snoc.IH)
  have "updateGridAfterClearance g (rs @ [y]) = ?E # splice1 y (updateGridAfterClearance g rs)"
    by (simp add: updateGridAfterClearance_def)
  also have "\<dots> = ?E # (replicate (length rs) ?E @ nths g {i. i \<notin> set (rs @ [y])})"
    by (simp only: IH clearance_step[OF y below d])
  finally show ?case by simp
qed

lemma reduceIdx_collect:
  "reduceIdx (\<lambda>acc row index. if P row then acc @ [index] else acc) acc i xs
   = acc @ map (\<lambda>j. i + j) (filter (\<lambda>j. P (xs ! j)) [0..<length xs])"
proof (induction xs arbitrary: acc i)
  case Nil
  show ?case by simp
next
  case (Cons x xs)
  have upt: "[0..<length (x # xs)] = 0 # map Suc [0..<length xs]"
    by (metis length_Cons map_Suc_upt upt_conv_Cons zero_less_Suc)
  have step: "filter (\<lambda>j. P ((x # xs) ! j)) [0..<length (x # xs)]
              = (if P x then [0] else []) @ map Suc (filter (\<lambda>j. P (xs ! j)) [0..<length xs])"
    unfolding upt by (simp add: filter_map comp_def)
  show ?case
    by (simp only: reduceIdx.simps Cons.IH step) (simp add: comp_def)
qed

lemma linesCleared_filter:
  "linesCleared g = filter (\<lambda>i. list_all truthy (g ! i)) [0..<length g]"
  by (simp add: linesCleared_def reduceIdx_collect)

lemma linesCleared_sorted: "sorted_wrt (<) (linesCleared g)"
  by (simp add: linesCleared_filter sorted_wrt_filter)

lemma linesCleared_bound: "\<forall>i\<in>set (linesCleared g). i < length g"
  by (simp add: linesCleared_filter)

lemma length_clearance:
  assumes "sorted_wrt (<) rows" and "\<forall>i\<in>set rows. i < length g"
  shows "length (updateGridAfterClearance g rows) = length g"
proof -
  from assms(1) have d: "distinct rows" by (rule strict_sorted_imp_distinct)
  have "{i. i < length g \<and> i \<in> {i. i \<notin> set rows}} = {i. i < length g \<and> i \<notin> set rows}"
    by auto
  then have "length (nths g {i. i \<notin> set rows}) = length g - length rows"
    using card_below_not_in[OF assms(2) d] by (simp only: length_nths)
  with length_le_bound[OF assms(2) d] show ?thesis
    by (simp add: clearance_nths[OF assms])
qed

text \<open>
  C8. For a grid and a strictly ascending list of its row indices, as \<open>linesCleared\<close>
  produces it, \<open>updateGridAfterClearance\<close> removes exactly the indexed rows, puts as many
  empty rows on top, keeps the other rows in their order, and keeps the height; the
  new rows have \<open>GRID_WIDTH\<close> cells, so a grid of that width keeps its width.
\<close>

theorem updateGridAfterClearance_rows:
  assumes "sorted_wrt (<) rows" and "\<forall>i\<in>set rows. i < length g"
  shows "updateGridAfterClearance g rows
           = replicate (length rows) (replicate (nat GRID_WIDTH) None) @ nths g {i. i \<notin> set rows}
         \<and> length (updateGridAfterClearance g rows) = length g
         \<and> ((\<forall>row\<in>set g. length row = nat GRID_WIDTH)
              \<longrightarrow> (\<forall>row\<in>set (updateGridAfterClearance g rows). length row = nat GRID_WIDTH))"
proof (intro conjI impI)
  show eq: "updateGridAfterClearance g rows
      = replicate (length rows) (replicate (nat GRID_WIDTH) None) @ nths g {i. i \<notin> set rows}"
    using assms by (rule clearance_nths)
  show "length (updateGridAfterClearance g rows) = length g"
    using assms by (rule length_clearance)
  assume w: "\<forall>row\<in>set g. length row = nat GRID_WIDTH"
  show "\<forall>row\<in>set (updateGridAfterClearance g rows). length row = nat GRID_WIDTH"
  proof
    fix row assume "row \<in> set (updateGridAfterClearance g rows)"
    then have "row = replicate (nat GRID_WIDTH) None \<or> row \<in> set (nths g {i. i \<notin> set rows})"
      by (auto simp: eq)
    then show "length row = nat GRID_WIDTH"
      using w in_set_nthsD[of row g] by auto
  qed
qed

lemma linesCleared_clearGrid: "linesCleared clearGrid = [17, 19]"
  by code_simp

theorem updateGridAfterClearance_rows_witness:
  "linesCleared clearGrid = [17, 19]
   \<and> list_all (\<lambda>row. length row = nat GRID_WIDTH) clearGrid
   \<and> updateGridAfterClearance clearGrid [17, 19]
       = replicate 2 (replicate (nat GRID_WIDTH) None) @ nths clearGrid {i. i \<notin> set [17, 19]}
   \<and> updateGridAfterClearance clearGrid [17, 19] = replicate 19 emptyRow @ [emptyRow[0 := Some ''red'']]
   \<and> length (updateGridAfterClearance clearGrid [17, 19]) = length clearGrid
   \<and> list_all (\<lambda>row. length row = nat GRID_WIDTH) (updateGridAfterClearance clearGrid [17, 19])"
proof -
  have srt: "sorted_wrt (<) [17, 19 :: nat]" by simp
  have bnd: "\<forall>i\<in>set [17, 19 :: nat]. i < length clearGrid" by (simp add: clearGrid_def)
  have w: "\<forall>row\<in>set clearGrid. length row = nat GRID_WIDTH"
    by (auto simp: clearGrid_def emptyRow_def GRID_WIDTH_def)
  have ev: "updateGridAfterClearance clearGrid [17, 19] = replicate 19 emptyRow @ [emptyRow[0 := Some ''red'']]"
    by code_simp
  note th = updateGridAfterClearance_rows[OF srt bnd]
  have len2: "length [17, 19 :: nat] = 2" by simp
  from th have a: "updateGridAfterClearance clearGrid [17, 19]
       = replicate 2 (replicate (nat GRID_WIDTH) None) @ nths clearGrid {i. i \<notin> set [17, 19]}"
    unfolding len2 by (rule conjunct1)
  from th have b: "length (updateGridAfterClearance clearGrid [17, 19]) = length clearGrid"
    by blast
  from th w have "\<forall>row\<in>set (updateGridAfterClearance clearGrid [17, 19]). length row = nat GRID_WIDTH"
    by blast
  then have c: "list_all (\<lambda>row. length row = nat GRID_WIDTH) (updateGridAfterClearance clearGrid [17, 19])"
    by (simp only: list_all_iff)
  from w have d: "list_all (\<lambda>row. length row = nat GRID_WIDTH) clearGrid"
    by (simp only: list_all_iff)
  from linesCleared_clearGrid d a ev b c show ?thesis by blast
qed

section \<open>Termination of the drop\<close>

lemma isCollision_floor:
  assumes "nat GRID_HEIGHT \<le> length g"
    and "r < length (shape b)" and "c < length (shape b ! r)" and "shape b ! r ! c \<noteq> 0"
    and "GRID_HEIGHT \<le> y + int r"
  shows "isCollision g b x y = Inr True"
proof -
  from isCollision_total[OF assms(1)] obtain res where res: "isCollision g b x y = Inr res"
    by blast
  with isCollision_below_floor[OF assms(2-5), of g x] show ?thesis by auto
qed

text \<open>
  C10. The recursion of \<open>findNewY\<close>, and so \<open>Drop.apply\<close>, comes to an end (with a row,
  or with the exception of a grid read) exactly when the shape of the piece has a filled
  cell; for a shape of zeros it never returns.
\<close>

theorem findNewY_ends_iff_filled:
  "(findNewY g b bX bY \<noteq> None) = filled (shape b)
   \<and> (Drop_apply (s\<lparr>block := Some b\<rparr>) \<noteq> None) = filled (shape b)"
proof -
  have 1: "(findNewY g b bX bY \<noteq> None) = filled (shape b)" for g bX bY
    using findNewY_not_filled[of g b bX bY] findNewY_filled[of b g bX bY] by auto
  have "(Drop_apply (s\<lparr>block := Some b\<rparr>) \<noteq> None)
        = (findNewY (grid s) b (blockX s) (blockY s) \<noteq> None)"
    by (auto simp: Drop_apply_def split: option.splits sum.splits)
  with 1 show ?thesis by simp
qed

theorem findNewY_ends_iff_filled_witness:
  "filled (shape pieceO) \<and> findNewY (grid scenarioA) pieceO 3 0 \<noteq> None
   \<and> \<not> filled (shape pieceZero) \<and> findNewY (grid scenarioA) pieceZero 3 0 = None
   \<and> Drop_apply (scenarioA\<lparr>block := Some pieceZero\<rparr>) = None"
proof -
  have a: "filled (shape pieceO)" by (simp add: filled_def pieceO_def)
  have b: "\<not> filled (shape pieceZero)" by (simp add: filled_def pieceZero_def)
  from a b findNewY_ends_iff_filled[of "grid scenarioA" pieceO 3 0 scenarioA]
    findNewY_ends_iff_filled[of "grid scenarioA" pieceZero 3 0 scenarioA]
  show ?thesis by simp
qed

section \<open>Drop\<close>

lemma scenarioA_fields:
  "block scenarioA = Some pieceO" "blockX scenarioA = 3" "blockY scenarioA = 0"
  "length (grid scenarioA) = 20"
  by (simp_all add: scenarioA_def)

lemma pieceO_filled: "filled (shape pieceO)"
  by (simp add: filled_def pieceO_def)

lemma Drop_apply_first:
  assumes "block s = Some b" and "blockY s \<le> y"
    and "isCollision (grid s) b (blockX s) (y + 1) = Inr True"
    and "\<And>y'. blockY s \<le> y' \<Longrightarrow> y' < y \<Longrightarrow> isCollision (grid s) b (blockX s) (y' + 1) = Inr False"
  shows "Drop_apply s = Some (Move_apply Y (y - blockY s) s)"
proof -
  have "findNewY (grid s) b (blockX s) (blockY s) = Some (Inr y)"
    using assms(2-4) by (rule findNewY_first)
  with assms(1) show ?thesis by (simp add: Drop_apply_def)
qed

lemma Move_apply_to_row:
  assumes "block s = Some b" and "findNewY (grid s) b (blockX s) (blockY s) = Some (Inr y)"
    and "nat GRID_HEIGHT \<le> length (grid s)"
  shows "Move_apply Y (y - blockY s) s = Inr (s\<lparr>blockY := y\<rparr>)"
proof (cases "y = blockY s")
  case True
  from isCollision_total[OF assms(3)] obtain c
    where "isCollision (grid s) b (blockX s) (blockY s) = Inr c" by blast
  with True assms(1) show ?thesis
    by (simp add: Move_apply_def moveBlock_def)
next
  case False
  from findNewY_result[OF assms(2)] have le: "blockY s \<le> y"
    and free: "\<And>y'. blockY s \<le> y' \<Longrightarrow> y' < y \<Longrightarrow> isCollision (grid s) b (blockX s) (y' + 1) = Inr False"
    by auto
  from False le have "blockY s \<le> y - 1" "y - 1 < y" by auto
  from free[OF this] have "isCollision (grid s) b (blockX s) y = Inr False" by simp
  with assms(1) show ?thesis
    by (simp add: Move_apply_def moveBlock_def)
qed

text \<open>
  C9, as claimed: \<open>Drop.apply s\<close> is the downward Move to the largest \<open>y \<ge> blockY\<close> with
  a collision at \<open>y + 1\<close>. There is no largest such row: below the floor every row
  collides. For the square piece on the empty grid no row \<open>y\<close> is as the claim says.
\<close>

theorem Drop_scenarioA_no_largest_row:
  "\<not> (\<exists>y. blockY scenarioA \<le> y
        \<and> isCollision (grid scenarioA) pieceO (blockX scenarioA) (y + 1) = Inr True
        \<and> (\<forall>y'. blockY scenarioA \<le> y'
               \<and> isCollision (grid scenarioA) pieceO (blockX scenarioA) (y' + 1) = Inr True
               \<longrightarrow> y' \<le> y)
        \<and> Drop_apply scenarioA = Some (Move_apply Y (y - blockY scenarioA) scenarioA))"
proof
  assume "\<exists>y. blockY scenarioA \<le> y
        \<and> isCollision (grid scenarioA) pieceO (blockX scenarioA) (y + 1) = Inr True
        \<and> (\<forall>y'. blockY scenarioA \<le> y'
               \<and> isCollision (grid scenarioA) pieceO (blockX scenarioA) (y' + 1) = Inr True
               \<longrightarrow> y' \<le> y)
        \<and> Drop_apply scenarioA = Some (Move_apply Y (y - blockY scenarioA) scenarioA)"
  then obtain y where y0: "0 \<le> y"
    and largest: "\<And>y'. 0 \<le> y' \<Longrightarrow>
       isCollision (grid scenarioA) pieceO 3 (y' + 1) = Inr True \<Longrightarrow> y' \<le> y"
    by (auto simp: scenarioA_fields)
  have "isCollision (grid scenarioA) pieceO 3 ((y + 20) + 1) = Inr True"
  proof (rule isCollision_floor[where r = 0 and c = 0])
    show "nat GRID_HEIGHT \<le> length (grid scenarioA)"
      by (simp add: scenarioA_fields GRID_HEIGHT_def)
    show "GRID_HEIGHT \<le> y + 20 + 1 + int 0" using y0 by (simp add: GRID_HEIGHT_def)
  qed (simp_all add: pieceO_def)
  with largest[of "y + 20"] y0 show False by simp
qed

text \<open>
  C9, amended: for a state whose piece has a filled cell (and whose grid has its 20
  rows), \<open>Drop.apply s\<close> is the downward Move to the first row \<open>y \<ge> blockY\<close> with a
  collision at \<open>y + 1\<close>, the row reached by walking down from \<open>blockY\<close> while one more
  step down does not collide. That Move does not land the piece: the state returned is
  \<open>s\<close> with the piece in row \<open>y\<close>.
\<close>

theorem Drop_apply_first_landing:
  assumes "block s = Some b" and "filled (shape b)" and "nat GRID_HEIGHT \<le> length (grid s)"
  shows "\<exists>y. blockY s \<le> y
           \<and> isCollision (grid s) b (blockX s) (y + 1) = Inr True
           \<and> (\<forall>y'. blockY s \<le> y' \<and> y' < y \<longrightarrow> isCollision (grid s) b (blockX s) (y' + 1) = Inr False)
           \<and> Drop_apply s = Some (Move_apply Y (y - blockY s) s)
           \<and> Drop_apply s = Some (Inr (s\<lparr>blockY := y\<rparr>))"
proof -
  from findNewY_returns[OF assms(2,3)] obtain y
    where y: "findNewY (grid s) b (blockX s) (blockY s) = Some (Inr y)" by blast
  from assms(1) y have d: "Drop_apply s = Some (Move_apply Y (y - blockY s) s)"
    by (simp add: Drop_apply_def)
  from Move_apply_to_row[OF assms(1) y assms(3)] d
  have "Drop_apply s = Some (Inr (s\<lparr>blockY := y\<rparr>))" by simp
  with findNewY_result[OF y] d show ?thesis by blast
qed

theorem Drop_apply_first_landing_witness:
  "block scenarioA = Some pieceO \<and> filled (shape pieceO)
   \<and> nat GRID_HEIGHT \<le> length (grid scenarioA)
   \<and> (\<exists>y. blockY scenarioA \<le> y
           \<and> isCollision (grid scenarioA) pieceO (blockX scenarioA) (y + 1) = Inr True
           \<and> (\<forall>y'. blockY scenarioA \<le> y' \<and> y' < y \<longrightarrow>
                  isCollision (grid scenarioA) pieceO (blockX scenarioA) (y' + 1) = Inr False)
           \<and> Drop_apply scenarioA = Some (Move_apply Y (y - blockY scenarioA) scenarioA)
           \<and> Drop_apply scenarioA = Some (Inr (scenarioA\<lparr>blockY := y\<rparr>)))
   \<and> Drop_apply scenarioA = Some (Inr (scenarioA\<lparr>blockY := 18\<rparr>))"
proof -
  have h: "nat GRID_HEIGHT \<le> length (grid scenarioA)"
    by (simp add: scenarioA_fields GRID_HEIGHT_def)
  have ev: "Drop_apply scenarioA = Some (Inr (scenarioA\<lparr>blockY := 18\<rparr>))"
    by code_simp
  from Drop_apply_first_landing[OF scenarioA_fields(1) pieceO_filled h]
    scenarioA_fields(1) pieceO_filled h ev
  show ?thesis by blast
qed

section \<open>Landing\<close>

lemma scenarioC_fields:
  "block scenarioC = Some pieceO" "blockX scenarioC = 3" "blockY scenarioC = 0"
  by (simp_all add: scenarioC_def scenarioA_def)

lemma scenarioC_collides:
  "isCollision (grid scenarioC) pieceO (blockX scenarioC) (blockY scenarioC + 1) = Inr True"
  by code_simp

lemma scenarioC_burned:
  "updateGrid (grid scenarioC) pieceO (blockX scenarioC) (blockY scenarioC)
   = replicate 2 (emptyRow[3 := Some ''yellow'', 4 := Some ''yellow''])
     @ replicate 18 (emptyRow[3 := Some ''red''])"
  by code_simp

lemma scenarioC_ends:
  "isGameEnd (updateGrid (grid scenarioC) pieceO (blockX scenarioC) (blockY scenarioC)) = Inr True"
  by code_simp

lemma scenarioC_grid_differs:
  "grid scenarioC \<noteq> updateGrid (grid scenarioC) pieceO (blockX scenarioC) (blockY scenarioC)"
  by code_simp

text \<open>
  C1, as claimed: when a downward Move lands the piece and the burned grid has its top
  row occupied, the returned state holds the burned grid. In scenario C the Move
  returns the state with \<open>gameEnd\<close> set and the grid as it was, which is not the burned
  grid.
\<close>

theorem Move_scenarioC_keeps_grid:
  "isCollision (grid scenarioC) pieceO (blockX scenarioC) (blockY scenarioC + 1) = Inr True
   \<and> isGameEnd (updateGrid (grid scenarioC) pieceO (blockX scenarioC) (blockY scenarioC)) = Inr True
   \<and> Move_apply Y 1 scenarioC = Inr (scenarioC\<lparr>gameEnd := True\<rparr>)
   \<and> grid (scenarioC\<lparr>gameEnd := True\<rparr>)
       \<noteq> updateGrid (grid scenarioC) pieceO (blockX scenarioC) (blockY scenarioC)"
proof -
  have "Move_apply Y 1 scenarioC = Inr (scenarioC\<lparr>gameEnd := True\<rparr>)"
    using scenarioC_collides scenarioC_ends
    by (simp add: Move_apply_def moveBlock_def scenarioC_fields)
  with scenarioC_collides scenarioC_ends scenarioC_grid_differs show ?thesis by simp
qed

text \<open>
  C1, amended: when a downward Move (\<open>m > 0\<close>) collides at the candidate position and
  the grid burned at the current position has its top row occupied, \<open>Move.apply s\<close>
  returns \<open>s\<close> with \<open>gameEnd\<close> set to true and every other field, the grid included,
  unchanged: the burned grid is tested and dropped, nothing is scored or cleared.
\<close>

theorem Move_apply_game_end:
  assumes "block s = Some b" and "0 < m"
    and "isCollision (grid s) b (blockX s) (blockY s + m) = Inr True"
    and "isGameEnd (updateGrid (grid s) b (blockX s) (blockY s)) = Inr True"
  shows "Move_apply Y m s = Inr (s\<lparr>gameEnd := True\<rparr>)"
  using assms by (simp add: Move_apply_def moveBlock_def)

theorem Move_apply_game_end_witness:
  "block scenarioC = Some pieceO \<and> (0::int) < 1
   \<and> isCollision (grid scenarioC) pieceO (blockX scenarioC) (blockY scenarioC + 1) = Inr True
   \<and> isGameEnd (updateGrid (grid scenarioC) pieceO (blockX scenarioC) (blockY scenarioC)) = Inr True
   \<and> Move_apply Y 1 scenarioC = Inr (scenarioC\<lparr>gameEnd := True\<rparr>)"
proof -
  have pos: "(0::int) < 1" by simp
  from Move_apply_game_end[OF scenarioC_fields(1) pos scenarioC_collides scenarioC_ends]
    scenarioC_fields(1) scenarioC_collides scenarioC_ends
  show ?thesis by simp
qed

lemma length_linesCleared:
  "length (linesCleared g) = length (filter (list_all truthy) g)"
proof -
  have "map (\<lambda>i. g ! i) (linesCleared g) = filter (list_all truthy) (map (\<lambda>i. g ! i) [0..<length g])"
    by (simp add: linesCleared_filter filter_map comp_def)
  then have "map (\<lambda>i. g ! i) (linesCleared g) = filter (list_all truthy) g"
    by (simp add: map_nth)
  then have "length (map (\<lambda>i. g ! i) (linesCleared g)) = length (filter (list_all truthy) g)"
    by simp
  then show ?thesis by simp
qed

lemma nths_not_linesCleared:
  "nths g {i. i \<notin> set (linesCleared g)} = filter (\<lambda>row. \<not> list_all truthy row) g"
proof -
  have "nths g {i. i \<notin> set (linesCleared g)} = nths g {i. i < length g \<and> \<not> list_all truthy (g ! i)}"
    by (rule nths_cong_below) (simp add: linesCleared_filter)
  then show ?thesis by (simp add: filter_eq_nths)
qed

lemma clearance_full_rows:
  "updateGridAfterClearance g (linesCleared g)
   = replicate (length (filter (list_all truthy) g)) emptyRow
     @ filter (\<lambda>row. \<not> list_all truthy row) g"
  using clearance_nths[OF linesCleared_sorted linesCleared_bound, of g]
  by (simp only: length_linesCleared nths_not_linesCleared emptyRow_def)

text \<open>
  C6. When a downward Move (\<open>m > 0\<close>) collides at the candidate position and the grid
  burned at the current position has a free top row, \<open>Move.apply s\<close> returns the state
  with: the burned grid without its full rows and with as many empty rows on top; 100
  points more per cleared row, the level and high score that follow; the former next
  piece as the piece; a next piece drawn from the stream of \<open>s\<close>; the position
  \<open>(STARTING_BLOCK_X, 0)\<close>; the stream advanced once.
\<close>

theorem Move_apply_landing:
  assumes "block s = Some b" and "0 < m"
    and "isCollision (grid s) b (blockX s) (blockY s + m) = Inr True"
    and "isGameEnd (updateGrid (grid s) b (blockX s) (blockY s)) = Inr False"
  shows "Move_apply Y m s =
     (let burned = updateGrid (grid s) b (blockX s) (blockY s);
          n = int (length (filter (list_all truthy) burned));
          newScore = score s + 100 * n
      in Inr (s\<lparr>block := nextBlock s,
                nextBlock := arrayGet shapes (currentValue (RNG s)),
                blockX := STARTING_BLOCK_X,
                blockY := 0,
                RNG := next_rng (RNG s),
                grid := replicate (nat n) emptyRow @ filter (\<lambda>row. \<not> list_all truthy row) burned,
                score := newScore,
                level := newScore div 1000 + 1,
                highScore := max newScore (highScore s)\<rparr>))"
  using assms
  by (simp add: Move_apply_def moveBlock_def Let_def scoreUpdates_def randomBlock_def
      clearance_full_rows length_linesCleared)

lemma scenarioB_fields:
  "block scenarioB = Some pieceO" 
  by (simp_all add: scenarioB_def scenarioA_def)

lemma scenarioB_collides:
  "isCollision (grid scenarioB) pieceO (blockX scenarioB) (blockY scenarioB + 1) = Inr True"
  by code_simp

lemma scenarioB_goes_on:
  "isGameEnd (updateGrid (grid scenarioB) pieceO (blockX scenarioB) (blockY scenarioB)) = Inr False"
  by code_simp

lemma scenarioB_result:
  "Move_apply Y 1 scenarioB =
     Inr (scenarioB\<lparr>block := Some \<lparr>shape = [[0, 1, 0], [1, 1, 1], [0, 0, 0]], color = ''purple''\<rparr>,
                nextBlock := Some \<lparr>shape = [[1, 1, 1, 1], [0, 0, 0, 0], [0, 0, 0, 0], [0, 0, 0, 0]], color = ''cyan''\<rparr>,
                blockX := 3,
                blockY := 0,
                RNG := \<lparr>seed = 1406932606\<rparr>,
                grid := replicate 18 emptyRow
                        @ replicate 2 (emptyRow[3 := Some ''yellow'', 4 := Some ''yellow''])\<rparr>)"
  by code_simp

theorem Move_apply_landing_witness:
  "block scenarioB = Some pieceO \<and> (0::int) < 1
   \<and> isCollision (grid scenarioB) pieceO (blockX scenarioB) (blockY scenarioB + 1) = Inr True
   \<and> isGameEnd (updateGrid (grid scenarioB) pieceO (blockX scenarioB) (blockY scenarioB)) = Inr False
   \<and> Move_apply Y 1 scenarioB =
     (let burned = updateGrid (grid scenarioB) pieceO (blockX scenarioB) (blockY scenarioB);
          n = int (length (filter (list_all truthy) burned));
          newScore = score scenarioB + 100 * n
      in Inr (scenarioB\<lparr>block := nextBlock scenarioB,
                nextBlock := arrayGet shapes (currentValue (RNG scenarioB)),
                blockX := STARTING_BLOCK_X,
                blockY := 0,
                RNG := next_rng (RNG scenarioB),
                grid := replicate (nat n) emptyRow @ filter (\<lambda>row. \<not> list_all truthy row) burned,
                score := newScore,
                level := newScore div 1000 + 1,
                highScore := max newScore (highScore scenarioB)\<rparr>))
   \<and> Move_apply Y 1 scenarioB =
     Inr (scenarioB\<lparr>block := Some \<lparr>shape = [[0, 1, 0], [1, 1, 1], [0, 0, 0]], color = ''purple''\<rparr>,
                nextBlock := Some \<lparr>shape = [[1, 1, 1, 1], [0, 0, 0, 0], [0, 0, 0, 0], [0, 0, 0, 0]], color = ''cyan''\<rparr>,
                blockX := 3,
                blockY := 0,
                RNG := \<lparr>seed = 1406932606\<rparr>,
                grid := replicate 18 emptyRow
                        @ replicate 2 (emptyRow[3 := Some ''yellow'', 4 := Some ''yellow''])\<rparr>)"
proof -
  have pos: "(0::int) < 1" by simp
  from Move_apply_landing[OF scenarioB_fields(1) pos scenarioB_collides scenarioB_goes_on]
    scenarioB_fields(1) pos scenarioB_collides scenarioB_goes_on scenarioB_result
  show ?thesis by blast
qed

section \<open>The end of the game\<close>

lemma run_reachable:
  "reachable ms s \<Longrightarrow> run ms s as = Some (Inr s') \<Longrightarrow> reachable ms s'"
proof (induction as arbitrary: s)
  case Nil
  then show ?case by simp
next
  case (Cons a as)
  from Cons.prems(2) obtain s1 where t: "tick ms s a = Some (Inr s1)"
    and r: "run ms s1 as = Some (Inr s')"
    by (auto split: option.splits sum.splits)
  from Cons.prems(1) t have "reachable ms s1" by (rule reachable.step)
  then show ?case using r by (rule Cons.IH)
qed

lemma Move_apply_gameEnd: "Move_apply d m s = Inr s' \<Longrightarrow> gameEnd s \<Longrightarrow> gameEnd s'"
  by (auto simp: Move_apply_def Let_def split: option.splits sum.splits if_splits prod.splits)

lemma tick_gameEnd:
  assumes "tick ms s a = Some (Inr s')" and "a \<noteq> Restart" and "gameEnd s"
  shows "gameEnd s'"
proof (cases a)
  case (Move d m)
  with assms show ?thesis by (auto dest: Move_apply_gameEnd)
next
  case Rotate
  with assms have "Rotate_apply s = Inr s'" by simp
  from Rotate_apply_frame[OF this] assms(3) show ?thesis by simp
next
  case Restart
  with assms show ?thesis by simp
next
  case Drop
  with assms have "Drop_apply s = Some (Inr s')" by simp
  from Drop_apply_lands[OF this] assms(3) show ?thesis by auto
qed

lemma tick_frame:
  assumes "tick ms s a = Some (Inr s')" and "a \<noteq> Restart" and "\<not> isDownwardMove a"
  shows "grid s' = grid s \<and> score s' = score s \<and> level s' = level s"
proof (cases a)
  case (Move d m)
  with assms have "Move_apply d m s = Inr s'" and "d = X \<or> m \<le> 0"
    by (auto, cases d, auto)
  from Move_apply_frame[OF this] show ?thesis by simp
next
  case Rotate
  with assms have "Rotate_apply s = Inr s'" by simp
  from Rotate_apply_frame[OF this] show ?thesis by simp
next
  case Restart
  with assms show ?thesis by simp
next
  case Drop
  with assms have "Drop_apply s = Some (Inr s')" by simp
  from Drop_apply_lands[OF this] show ?thesis by auto
qed

lemma game_over_run:
  "(case run 0 (initialState 0) gameOverActions of
      Some (Inr s) \<Rightarrow>
        gameEnd s
        \<and> (case run 0 s afterGameOverActions of
             Some (Inr s') \<Rightarrow> gameEnd s' \<and> grid s' \<noteq> grid s
           | _ \<Rightarrow> False)
    | _ \<Rightarrow> False)"
  by code_simp

lemma gameOverState_facts:
  "run 0 (initialState 0) gameOverActions = Some (Inr gameOverState)
   \<and> gameEnd gameOverState
   \<and> (case run 0 gameOverState afterGameOverActions of
        Some (Inr s') \<Rightarrow> gameEnd s' \<and> grid s' \<noteq> grid gameOverState
      | _ \<Rightarrow> False)"
proof -
  from game_over_run obtain s where r: "run 0 (initialState 0) gameOverActions = Some (Inr s)"
    and e: "gameEnd s"
    and a: "(case run 0 s afterGameOverActions of
        Some (Inr s') \<Rightarrow> gameEnd s' \<and> grid s' \<noteq> grid s
      | _ \<Rightarrow> False)"
    by (cases "run 0 (initialState 0) gameOverActions") (auto split: sum.splits)
  from r have eq: "s = gameOverState" by (simp add: gameOverState_def)
  from r e a show ?thesis unfolding eq by blast
qed

lemma gameOverState_reachable: "reachable 0 gameOverState"
  using reachable.init gameOverState_facts[THEN conjunct1] by (rule run_reachable)

lemma gameOverState_shown:
  "block gameOverState = Some pieceO \<and> blockX gameOverState = 3 \<and> blockY gameOverState = 0
   \<and> score gameOverState = 0 \<and> level gameOverState = 1 \<and> gameEnd gameOverState
   \<and> grid gameOverState =
     [emptyRow,
      emptyRow,
      emptyRow[4 := Some ''blue''],
      emptyRow[4 := Some ''blue''],
      emptyRow[4 := Some ''blue'', 5 := Some ''blue''],
      emptyRow[5 := Some ''blue''],
      emptyRow[3 := Some ''blue'', 4 := Some ''blue'', 5 := Some ''blue''],
      emptyRow[5 := Some ''green''],
      emptyRow[4 := Some ''green'', 5 := Some ''green''],
      emptyRow[4 := Some ''green''],
      emptyRow[4 := Some ''blue''],
      emptyRow[4 := Some ''blue''],
      emptyRow[4 := Some ''blue'', 5 := Some ''blue''],
      emptyRow[4 := Some ''purple''],
      emptyRow[4 := Some ''purple'', 5 := Some ''purple''],
      emptyRow[4 := Some ''purple''],
      emptyRow[4 := Some ''blue''],
      emptyRow[4 := Some ''blue''],
      emptyRow[4 := Some ''blue'', 5 := Some ''blue''],
      emptyRow[3 := Some ''cyan'', 4 := Some ''cyan'', 5 := Some ''cyan'', 6 := Some ''cyan'']]"
  by code_simp

text \<open>
  C2, as claimed: in a reachable state with \<open>gameEnd\<close> true, no sequence of actions
  without a Restart changes the grid, the score or the level. The state
  \<open>gameOverState\<close> is reachable and has \<open>gameEnd\<close> true; moving its piece one column to
  the left, dropping it and landing it burns the piece into the grid.
\<close>

theorem gameOverState_grid_changes:
  "reachable 0 gameOverState \<and> gameEnd gameOverState
   \<and> Restart \<notin> set afterGameOverActions
   \<and> (case run 0 gameOverState afterGameOverActions of
        Some (Inr s') \<Rightarrow> gameEnd s' \<and> grid s' \<noteq> grid gameOverState
      | _ \<Rightarrow> False)"
proof -
  have "Restart \<notin> set afterGameOverActions" by (simp add: afterGameOverActions_def)
  with gameOverState_reachable gameOverState_facts show ?thesis by blast
qed

text \<open>
  C2, amended: once \<open>gameEnd\<close> is true (in any state), it stays true through every
  sequence of actions without a Restart, and every such sequence without a downward
  Move (\<open>Move('y', m)\<close> with \<open>m > 0\<close>) leaves the grid, the score and the level unchanged.
\<close>

theorem gameEnd_frozen:
  assumes "gameEnd s" and "Restart \<notin> set as" and "run ms s as = Some (Inr s')"
  shows "gameEnd s'
         \<and> ((\<forall>a\<in>set as. \<not> isDownwardMove a)
              \<longrightarrow> grid s' = grid s \<and> score s' = score s \<and> level s' = level s)"
  using assms
proof (induction as arbitrary: s)
  case Nil
  then show ?case by simp
next
  case (Cons a as)
  from Cons.prems(3) obtain s1 where t: "tick ms s a = Some (Inr s1)"
    and r: "run ms s1 as = Some (Inr s')"
    by (auto split: option.splits sum.splits)
  from Cons.prems(2) have a: "a \<noteq> Restart" and as: "Restart \<notin> set as" by auto
  from t a Cons.prems(1) have g1: "gameEnd s1" by (rule tick_gameEnd)
  from Cons.IH[OF g1 as r] have IH: "gameEnd s'"
    "(\<forall>a\<in>set as. \<not> isDownwardMove a) \<Longrightarrow> grid s' = grid s1 \<and> score s' = score s1 \<and> level s' = level s1"
    by auto
  show ?case
  proof (rule conjI, rule IH(1), rule impI)
    assume nd: "\<forall>a\<in>set (a # as). \<not> isDownwardMove a"
    then have "\<not> isDownwardMove a" by simp
    with t a have "grid s1 = grid s \<and> score s1 = score s \<and> level s1 = level s"
      by (rule tick_frame)
    moreover from nd have "\<forall>a\<in>set as. \<not> isDownwardMove a" by simp
    then have "grid s' = grid s1 \<and> score s' = score s1 \<and> level s' = level s1"
      by (rule IH(2))
    ultimately show "grid s' = grid s \<and> score s' = score s \<and> level s' = level s" by simp
  qed
qed

lemma sideways_run:
  "run 0 scenarioEnded sidewaysActions
   = Some (Inr (scenarioEnded\<lparr>block := Some pieceO, blockX := 4, blockY := 17\<rparr>))"
  by code_simp

theorem gameEnd_frozen_witness:
  "gameEnd scenarioEnded \<and> Restart \<notin> set sidewaysActions
   \<and> list_all (\<lambda>a. \<not> isDownwardMove a) sidewaysActions
   \<and> run 0 scenarioEnded sidewaysActions
       = Some (Inr (scenarioEnded\<lparr>block := Some pieceO, blockX := 4, blockY := 17\<rparr>))
   \<and> gameEnd (scenarioEnded\<lparr>block := Some pieceO, blockX := 4, blockY := 17\<rparr>)
   \<and> grid (scenarioEnded\<lparr>block := Some pieceO, blockX := 4, blockY := 17\<rparr>)
       = grid scenarioEnded"
proof -
  have g: "gameEnd scenarioEnded" by (simp add: scenarioEnded_def)
  have nr: "Restart \<notin> set sidewaysActions" by (simp add: sidewaysActions_def)
  have nd: "\<forall>a\<in>set sidewaysActions. \<not> isDownwardMove a" by (simp add: sidewaysActions_def)
  from gameEnd_frozen[OF g nr sideways_run] nd g nr sideways_run
  show ?thesis by (simp add: list_all_iff)
qed

end
